theory Spec2Isabelle
  imports Complex_Main
begin

section \<open>The benchmark notebook \<open>nltk_vs_spacy.ipynb\<close>\<close>

text \<open>
  The notebook times two text-processing pipelines on text samples of growing size
  (cells 4 and 5), takes decimal logarithms of sizes and durations (cell 6), fits a line
  to them with \<open>scipy.stats.linregress\<close> (cells 7 and 8) and rebuilds the power law
  from the fitted coefficients (cell 9) for the plot (cell 10).

  Python floats are idealised as real numbers throughout: rounding, overflow, infinities
  and NaN are outside the model. Exceptions are values of a sum type, \<open>Inl\<close> the error.
\<close>

subsection \<open>Errors\<close>

text \<open>
  \<open>ValueError\<close> is what \<open>math.log10\<close> raises on a non-positive argument
  ("math domain error") and what \<open>min\<close> raises on an empty list; it is the
  \<open>DomainError\<close> of the specification. \<open>PipelineError\<close> stands for any exception
  raised inside an external pipeline function; the notebook catches nothing, so it
  ends the run.
\<close>

datatype py_error = ValueError | PipelineError

subsection \<open>Timed Pipeline Runner (cells 4 and 5)\<close>

text \<open>
  The outside world (wall clock, the libraries' internal state) is a state of type
  \<open>'w\<close>. \<open>time()\<close> reads the clock and may change the world (time passes); a pipeline
  takes a text, may raise, and otherwise leaves a new world. Its result value is
  discarded by the notebook.
\<close>

type_synonym 'w clock = "'w \<Rightarrow> real \<times> 'w"

type_synonym 'w pipeline = "string \<Rightarrow> 'w \<Rightarrow> py_error + 'w"

text \<open>
  The inner loop \<open>for _ in range(3)\<close>: read \<open>t1\<close>, run the pipeline, read \<open>t2\<close>,
  append \<open>t2 - t1\<close> to \<open>times\<close> (written \<open>times'\<close>, as \<open>times\<close> is HOL's
  multiplication). The counter is the number of iterations left.
\<close>

fun trials :: "'w clock \<Rightarrow> 'w pipeline \<Rightarrow> string \<Rightarrow> nat \<Rightarrow> real list \<Rightarrow> 'w
    \<Rightarrow> py_error + (real list \<times> 'w)" where
  "trials time pipeline text 0 times' w = Inr (times', w)"
| "trials time pipeline text (Suc k) times' w =
     (case time w of (t1, w1) \<Rightarrow>
        (case pipeline text w1 of
           Inl e \<Rightarrow> Inl e
         | Inr w2 \<Rightarrow>
             (case time w2 of (t2, w3) \<Rightarrow>
                trials time pipeline text k (times' @ [t2 - t1]) w3)))"

text \<open>Python's \<open>min\<close> on a list: \<open>ValueError\<close> on the empty list.\<close>

definition py_min :: "real list \<Rightarrow> py_error + real" where
  "py_min times' = (case times' of [] \<Rightarrow> Inl ValueError | t # ts \<Rightarrow> Inr (fold min ts t))"

text \<open>
  The outer loop \<open>for text in text_data\<close>: a fresh \<open>times\<close>, three trials,
  \<open>results.append(min(times))\<close>.
\<close>

fun runner :: "'w clock \<Rightarrow> 'w pipeline \<Rightarrow> string list \<Rightarrow> real list \<Rightarrow> 'w
    \<Rightarrow> py_error + (real list \<times> 'w)" where
  "runner time pipeline [] results w = Inr (results, w)"
| "runner time pipeline (text # text_data) results w =
     (case trials time pipeline text 3 [] w of
        Inl e \<Rightarrow> Inl e
      | Inr (times', w1) \<Rightarrow>
          (case py_min times' of
             Inl e \<Rightarrow> Inl e
           | Inr t \<Rightarrow> runner time pipeline text_data (results @ [t]) w1))"

text \<open>Cell 4: the timed body is \<open>nlp(text)\<close>; the list starts as \<open>spacy = []\<close>.\<close>

definition spacy_body :: "(string \<Rightarrow> 'w \<Rightarrow> py_error + ('doc \<times> 'w)) \<Rightarrow> 'w pipeline" where
  "spacy_body nlp text w = (case nlp text w of Inl e \<Rightarrow> Inl e | Inr (doc, w1) \<Rightarrow> Inr w1)"

definition spacy :: "'w clock \<Rightarrow> (string \<Rightarrow> 'w \<Rightarrow> py_error + ('doc \<times> 'w)) \<Rightarrow> string list \<Rightarrow> 'w
    \<Rightarrow> py_error + (real list \<times> 'w)" where
  "spacy time nlp text_data w = runner time (spacy_body nlp) text_data [] w"

text \<open>
  Cell 5: the timed body is
  \<open>sentences = [word_tokenize(sent) for sent in sent_tokenize(text)]\<close> followed by
  \<open>for sent in sentences: ne_chunk(pos_tag(sent))\<close>. The four library functions are
  parameters; each may raise and may change the world.
\<close>

fun tokenize_all :: "(string \<Rightarrow> 'w \<Rightarrow> py_error + ('toks \<times> 'w)) \<Rightarrow> string list \<Rightarrow> 'w
    \<Rightarrow> py_error + ('toks list \<times> 'w)" where
  "tokenize_all word_tokenize [] w = Inr ([], w)"
| "tokenize_all word_tokenize (sent # sents) w =
     (case word_tokenize sent w of
        Inl e \<Rightarrow> Inl e
      | Inr (toks, w1) \<Rightarrow>
          (case tokenize_all word_tokenize sents w1 of
             Inl e \<Rightarrow> Inl e
           | Inr (rest, w2) \<Rightarrow> Inr (toks # rest, w2)))"

fun chunk_all :: "('toks \<Rightarrow> 'w \<Rightarrow> py_error + ('tagged \<times> 'w))
    \<Rightarrow> ('tagged \<Rightarrow> 'w \<Rightarrow> py_error + ('tree \<times> 'w)) \<Rightarrow> 'toks list \<Rightarrow> 'w \<Rightarrow> py_error + 'w" where
  "chunk_all pos_tag ne_chunk [] w = Inr w"
| "chunk_all pos_tag ne_chunk (sent # sentences) w =
     (case pos_tag sent w of
        Inl e \<Rightarrow> Inl e
      | Inr (tagged, w1) \<Rightarrow>
          (case ne_chunk tagged w1 of
             Inl e \<Rightarrow> Inl e
           | Inr (tree, w2) \<Rightarrow> chunk_all pos_tag ne_chunk sentences w2))"

definition nltk_body :: "(string \<Rightarrow> 'w \<Rightarrow> py_error + (string list \<times> 'w))
    \<Rightarrow> (string \<Rightarrow> 'w \<Rightarrow> py_error + ('toks \<times> 'w))
    \<Rightarrow> ('toks \<Rightarrow> 'w \<Rightarrow> py_error + ('tagged \<times> 'w))
    \<Rightarrow> ('tagged \<Rightarrow> 'w \<Rightarrow> py_error + ('tree \<times> 'w)) \<Rightarrow> 'w pipeline" where
  "nltk_body sent_tokenize word_tokenize pos_tag ne_chunk text w =
     (case sent_tokenize text w of
        Inl e \<Rightarrow> Inl e
      | Inr (sents, w1) \<Rightarrow>
          (case tokenize_all word_tokenize sents w1 of
             Inl e \<Rightarrow> Inl e
           | Inr (sentences, w2) \<Rightarrow> chunk_all pos_tag ne_chunk sentences w2))"

definition nltk :: "'w clock \<Rightarrow> (string \<Rightarrow> 'w \<Rightarrow> py_error + (string list \<times> 'w))
    \<Rightarrow> (string \<Rightarrow> 'w \<Rightarrow> py_error + ('toks \<times> 'w))
    \<Rightarrow> ('toks \<Rightarrow> 'w \<Rightarrow> py_error + ('tagged \<times> 'w))
    \<Rightarrow> ('tagged \<Rightarrow> 'w \<Rightarrow> py_error + ('tree \<times> 'w)) \<Rightarrow> string list \<Rightarrow> 'w
    \<Rightarrow> py_error + (real list \<times> 'w)" where
  "nltk time sent_tokenize word_tokenize pos_tag ne_chunk text_data w =
     runner time (nltk_body sent_tokenize word_tokenize pos_tag ne_chunk) text_data [] w"

subsection \<open>Log-Log Regression Fitter (cells 6 to 8)\<close>

text \<open>
  \<open>math.log10\<close>: the decimal logarithm of a positive number, \<open>ValueError\<close> otherwise.
\<close>

definition log10 :: "real \<Rightarrow> py_error + real" where
  "log10 x = (if x \<le> 0 then Inl ValueError else Inr (log 10 x))"

text \<open>
  The comprehension \<open>[math.log10(v) for v in vs]\<close> of cell 6: the first failing element
  ends it.
\<close>

fun log10_all :: "real list \<Rightarrow> py_error + real list" where
  "log10_all [] = Inr []"
| "log10_all (v # vs) =
     (case log10 v of
        Inl e \<Rightarrow> Inl e
      | Inr l \<Rightarrow> (case log10_all vs of Inl e \<Rightarrow> Inl e | Inr ls \<Rightarrow> Inr (l # ls)))"

definition mean :: "real list \<Rightarrow> real" where
  "mean xs = sum_list xs / real (length xs)"

text \<open>
  Modelled from the spec: \<open>scipy.stats.linregress\<close>, the library function that cells 7
  and 8 call; its code is not part of the notebook. The specification describes it as
  fitting "an ordinary least-squares line \<open>log(duration) = slope\<cdot>log(size) + intercept\<close>"
  and failing "if fewer than two distinct size values are supplied (regression
  underdetermined)". The model is the closed form of that fit on parallel sequences
  \<open>x\<close> and \<open>y\<close>: averaged sums of squares \<open>ssxm\<close>, \<open>ssym\<close> and of products \<open>ssxym\<close>
  about the means, slope \<open>ssxym / ssxm\<close>, intercept \<open>ymean - slope * xmean\<close>. The third
  component is the correlation coefficient \<open>r\<close>, which the notebook squares; where all
  \<open>y\<close> are equal the quotient defining it has a zero denominator and the model takes
  \<open>r = 0\<close>. Sequences of different lengths are rejected. The two further values that
  the notebook binds to \<open>_\<close> are left out.
\<close>

definition linregress :: "real list \<Rightarrow> real list \<Rightarrow> py_error + (real \<times> real \<times> real)" where
  "linregress x y =
     (if length x \<noteq> length y \<or> length (remdups x) < 2 then Inl ValueError
      else
        (let xmean = mean x;
             ymean = mean y;
             ssxm = mean (map (\<lambda>a. (a - xmean)\<^sup>2) x);
             ssym = mean (map (\<lambda>b. (b - ymean)\<^sup>2) y);
             ssxym = mean (map (\<lambda>(a, b). (a - xmean) * (b - ymean)) (zip x y));
             slope = ssxym / ssxm;
             intercept = ymean - slope * xmean;
             r = (if ssxm * ssym = 0 then 0 else ssxym / sqrt (ssxm * ssym))
         in Inr (slope, intercept, r)))"

text \<open>
  Cells 6 and 7 (and 8) for one pipeline: \<open>log_chars\<close> from the sizes \<open>n_chars\<close>
  (Python integers), the logarithms of the measured durations, the regression, and the
  displayed triple \<open>(m, b, r**2)\<close>.
\<close>

definition fitter :: "int list \<Rightarrow> real list \<Rightarrow> py_error + (real \<times> real \<times> real)" where
  "fitter n_chars durations =
     (case log10_all (map real_of_int n_chars) of
        Inl e \<Rightarrow> Inl e
      | Inr log_chars \<Rightarrow>
          (case log10_all durations of
             Inl e \<Rightarrow> Inl e
           | Inr log_times \<Rightarrow>
               (case linregress log_chars log_times of
                  Inl e \<Rightarrow> Inl e
                | Inr (m, b, r) \<Rightarrow> Inr (m, b, r\<^sup>2))))"

subsection \<open>Extrapolation (cells 9 and 10)\<close>

text \<open>
  \<open>reg_spacy\<close> and \<open>reg_nltk\<close> are the same function of the fitted slope \<open>m\<close> and
  intercept \<open>b\<close>, which the notebook reads from global variables:
  \<open>(10 ** b) * (10 ** (m * math.log10(x)))\<close>.
\<close>

definition reg :: "real \<Rightarrow> real \<Rightarrow> real \<Rightarrow> py_error + real" where
  "reg m b x =
     (case log10 x of Inl e \<Rightarrow> Inl e | Inr l \<Rightarrow> Inr ((10 powr b) * (10 powr (m * l))))"

text \<open>The comprehension \<open>[reg_spacy(x) for x in n_chars]\<close> passed to \<open>ax.plot\<close>.\<close>

fun reg_all :: "real \<Rightarrow> real \<Rightarrow> int list \<Rightarrow> py_error + real list" where
  "reg_all m b [] = Inr []"
| "reg_all m b (x # xs) =
     (case reg m b (real_of_int x) of
        Inl e \<Rightarrow> Inl e
      | Inr y \<Rightarrow> (case reg_all m b xs of Inl e \<Rightarrow> Inl e | Inr ys \<Rightarrow> Inr (y # ys)))"

subsection \<open>A sample world for concrete runs\<close>

text \<open>
  A world is a clock reading and a count of pipeline invocations. \<open>demo_time\<close> reads the
  clock; \<open>frozen_time\<close> is a clock too coarse to see the pipeline run (every reading is
  the same). The sample pipelines take time that grows with the text, and the first
  invocation pays a warm-up cost.
\<close>

type_synonym demo_world = "real \<times> nat"

definition demo_time :: "demo_world clock" where
  "demo_time w = (fst w, w)"

definition frozen_time :: "demo_world clock" where
  "frozen_time w = (0, w)"

definition demo_nlp :: "string \<Rightarrow> demo_world \<Rightarrow> py_error + (unit \<times> demo_world)" where
  "demo_nlp tx w =
     Inr ((), (fst w + 1 + real (length tx) + (if snd w = 0 then 5 else 0), Suc (snd w)))"

definition demo_sent_tokenize :: "string \<Rightarrow> demo_world \<Rightarrow> py_error + (string list \<times> demo_world)" where
  "demo_sent_tokenize tx w = Inr ([tx], (fst w + 1, snd w))"

definition demo_word_tokenize :: "string \<Rightarrow> demo_world \<Rightarrow> py_error + (string list \<times> demo_world)" where
  "demo_word_tokenize sent w = Inr (map (\<lambda>c. [c]) sent, (fst w + real (length sent), snd w))"

definition demo_pos_tag :: "string list \<Rightarrow> demo_world \<Rightarrow> py_error + ((string \<times> string) list \<times> demo_world)" where
  "demo_pos_tag sent w = Inr (map (\<lambda>tok. (tok, ''NN'')) sent, (fst w + 2, snd w))"

definition demo_ne_chunk :: "(string \<times> string) list \<Rightarrow> demo_world \<Rightarrow> py_error + (unit \<times> demo_world)" where
  "demo_ne_chunk tagged w = Inr ((), (fst w + (if snd w = 0 then 4 else 0), Suc (snd w)))"

section \<open>Properties of the Timed Pipeline Runner\<close>

lemma trials_acc:
  "trials time pipeline text k acc w = Inr (ts, w') \<Longrightarrow> \<exists>new. ts = acc @ new \<and> length new = k"
proof (induction k arbitrary: acc w)
  case 0
  then show ?case by simp
next
  case (Suc k)
  then show ?case
    by (fastforce split: prod.splits sum.splits)
qed

lemma trials_length:
  "trials time pipeline tx k [] w = Inr (ts, w') \<Longrightarrow> length ts = k"
  using trials_acc [of time pipeline tx k "[]" w ts w'] by auto

lemma py_min_Min:
  assumes "ts \<noteq> []"
  shows "py_min ts = Inr (Min (set ts))"
proof (cases ts)
  case Nil
  with assms show ?thesis by simp
next
  case (Cons t ts')
  then show ?thesis using Min.set_eq_fold [of t ts'] by (simp add: py_min_def)
qed

lemma runner_acc:
  "runner time pipeline text_data acc w = Inr (rs, w') \<longleftrightarrow>
     (\<exists>rs'. rs = acc @ rs' \<and> runner time pipeline text_data [] w = Inr (rs', w'))"
proof (induction text_data arbitrary: acc w rs)
  case Nil
  then show ?case by auto
next
  case (Cons tx text_data)
  show ?case
    apply (simp split: sum.splits prod.splits)
    apply (subst Cons.IH)
    apply (subst (2) Cons.IH)
    apply auto
    done
qed

lemma runner_nth:
  assumes "runner time pipeline text_data [] w = Inr (rs, w')" and "i < length text_data"
  shows "\<exists>wi ts wi'. runner time pipeline (take i text_data) [] w = Inr (take i rs, wi)
            \<and> trials time pipeline (text_data ! i) 3 [] wi = Inr (ts, wi')
            \<and> length ts = 3 \<and> py_min ts = Inr (rs ! i) \<and> i < length rs"
  using assms
proof (induction text_data arbitrary: w rs i)
  case Nil
  then show ?case by simp
next
  case (Cons tx text_data)
  from Cons.prems(1) obtain ts w1 t where
    tr: "trials time pipeline tx 3 [] w = Inr (ts, w1)" and mn: "py_min ts = Inr t"
    and rest: "runner time pipeline text_data [t] w1 = Inr (rs, w')"
    by (auto split: sum.splits prod.splits)
  from rest obtain rs' where rs: "rs = t # rs'"
    and rest': "runner time pipeline text_data [] w1 = Inr (rs', w')"
    using runner_acc [of time pipeline text_data "[t]" w1 rs w'] by auto
  have len: "length ts = 3" using tr by (rule trials_length)
  show ?case
  proof (cases i)
    case 0
    then show ?thesis using tr mn len rs by auto
  next
    case (Suc j)
    with Cons.prems(2) have j: "j < length text_data" by simp
    from Cons.IH [OF rest' j] obtain wj tsj wj' where
      a: "runner time pipeline (take j text_data) [] w1 = Inr (take j rs', wj)"
      and b: "trials time pipeline (text_data ! j) 3 [] wj = Inr (tsj, wj')"
      and c: "length tsj = 3" "py_min tsj = Inr (rs' ! j)" "j < length rs'"
      by blast
    from a have "runner time pipeline (take j text_data) [t] w1 = Inr (t # take j rs', wj)"
      using runner_acc [of time pipeline "take j text_data" "[t]" w1 "t # take j rs'" wj] by simp
    then have "runner time pipeline (take i (tx # text_data)) [] w = Inr (take i rs, wj)"
      using Suc tr mn rs by simp
    then show ?thesis using Suc b c rs by auto
  qed
qed

lemma runner_length:
  "runner time pipeline text_data [] w = Inr (rs, w') \<Longrightarrow> length rs = length text_data"
proof (induction text_data arbitrary: w rs)
  case Nil
  then show ?case by simp
next
  case (Cons tx text_data)
  from Cons.prems obtain ts w1 t where
    rest: "runner time pipeline text_data [t] w1 = Inr (rs, w')"
    by (auto split: sum.splits prod.splits)
  from rest obtain rs' where rs: "rs = t # rs'"
    and rest': "runner time pipeline text_data [] w1 = Inr (rs', w')"
    using runner_acc [of time pipeline text_data "[t]" w1 rs w'] by auto
  from Cons.IH [OF rest'] rs show ?case by simp
qed

lemma py_min_mem: "py_min ts = Inr t \<Longrightarrow> t \<in> set ts"
proof (cases "ts = []")
  case True
  assume "py_min ts = Inr t"
  with True show ?thesis by (simp add: py_min_def)
next
  case False
  assume "py_min ts = Inr t"
  with False have "t = Min (set ts)" by (simp add: py_min_Min)
  with False show ?thesis using Min_in [of "set ts"] by simp
qed

text \<open>
  The run returns whenever the pipeline never raises, and an aborted run carries an
  exception of the pipeline: \<open>min\<close> is never applied to an empty list.
\<close>

lemma trials_returns:
  assumes "\<And>tx w. \<exists>w'. pipeline tx w = Inr w'"
  shows "\<exists>ts w'. trials time pipeline tx k acc w = Inr (ts, w')"
proof (induction k arbitrary: acc w)
  case 0
  show ?case by simp
next
  case (Suc k)
  obtain t1 w1 where t1: "time w = (t1, w1)" by (cases "time w")
  from assms obtain w2 where w2: "pipeline tx w1 = Inr w2" by blast
  obtain t2 w3 where t2: "time w2 = (t2, w3)" by (cases "time w2")
  from Suc.IH [of "acc @ [t2 - t1]" w3] t1 w2 t2 show ?case by simp
qed

lemma runner_returns:
  assumes "\<And>tx w. \<exists>w'. pipeline tx w = Inr w'"
  shows "\<exists>rs w'. runner time pipeline text_data acc w = Inr (rs, w')"
proof (induction text_data arbitrary: acc w)
  case Nil
  show ?case by simp
next
  case (Cons tx text_data)
  have "\<exists>ts w1. trials time pipeline tx 3 [] w = Inr (ts, w1)"
    using assms by (rule trials_returns)
  then obtain ts w1 where tr: "trials time pipeline tx 3 [] w = Inr (ts, w1)" by blast
  then have "length ts = 3" by (rule trials_length)
  then have "ts \<noteq> []" by auto
  then have mn: "py_min ts = Inr (Min (set ts))" by (rule py_min_Min)
  from Cons.IH [of "acc @ [Min (set ts)]" w1] tr mn show ?case by simp
qed

lemma trials_raises:
  "trials time pipeline tx k acc w = Inl e \<Longrightarrow> \<exists>w1. pipeline tx w1 = Inl e"
proof (induction k arbitrary: acc w)
  case 0
  then show ?case by simp
next
  case (Suc k)
  then show ?case by (auto split: prod.splits sum.splits)
qed

lemma runner_raises:
  "runner time pipeline text_data acc w = Inl e \<Longrightarrow> \<exists>tx w1. pipeline tx w1 = Inl e"
proof (induction text_data arbitrary: acc w)
  case Nil
  then show ?case by simp
next
  case (Cons tx text_data)
  show ?case
  proof (cases "trials time pipeline tx 3 [] w")
    case (Inl e')
    with Cons.prems have "trials time pipeline tx 3 [] w = Inl e" by simp
    then have "\<exists>w1. pipeline tx w1 = Inl e" by (rule trials_raises)
    then show ?thesis by blast
  next
    case (Inr res)
    obtain ts w1 where res: "res = (ts, w1)" by (cases res)
    with Inr have tr: "trials time pipeline tx 3 [] w = Inr (ts, w1)" by simp
    then have "length ts = 3" by (rule trials_length)
    then have "ts \<noteq> []" by auto
    then have mn: "py_min ts = Inr (Min (set ts))" by (rule py_min_Min)
    from Cons.prems tr mn
    have "runner time pipeline text_data (acc @ [Min (set ts)]) w1 = Inl e" by simp
    then show ?thesis by (rule Cons.IH)
  qed
qed

text \<open>
  Claim C1. For every text sample the runner records exactly the minimum of the three
  trial durations measured for that sample, so the recorded duration is at most each of
  the three. The sample at position \<open>i\<close> is timed in the world \<open>wi\<close> that the run over
  the samples before it leaves; its three trials give \<open>times'\<close>, and the entry
  \<open>results ! i\<close> is their minimum. It holds for every pipeline, \<open>spacy\<close> and
  \<open>nltk\<close> being the runner on \<open>spacy_body\<close> and \<open>nltk_body\<close>.
\<close>

theorem runner_records_minimum:
  assumes "runner time pipeline text_data [] w = Inr (results, w')"
    and "i < length text_data"
  shows "\<exists>wi times' wi'.
           runner time pipeline (take i text_data) [] w = Inr (take i results, wi)
           \<and> trials time pipeline (text_data ! i) 3 [] wi = Inr (times', wi')
           \<and> length times' = 3
           \<and> results ! i = Min (set times')
           \<and> (\<forall>t\<in>set times'. results ! i \<le> t)"
proof -
  from runner_nth [OF assms] obtain wi ts wi' where
    a: "runner time pipeline (take i text_data) [] w = Inr (take i results, wi)"
    and b: "trials time pipeline (text_data ! i) 3 [] wi = Inr (ts, wi')"
    and c: "length ts = 3" and d: "py_min ts = Inr (results ! i)"
    by blast
  from c have ne: "ts \<noteq> []" by auto
  with d have e: "results ! i = Min (set ts)" by (simp add: py_min_Min)
  then have "\<forall>t\<in>set ts. results ! i \<le> t" by simp
  with a b c e show ?thesis by blast
qed

lemma demo_spacy_run:
  "runner demo_time (spacy_body demo_nlp) [''ab'', ''c''] [] (0, 0) = Inr ([3, 2], (20, 6))"
  by (simp add: demo_time_def demo_nlp_def spacy_body_def py_min_def numeral_3_eq_3)

theorem runner_records_minimum_witness:
  "runner demo_time (spacy_body demo_nlp) [''ab'', ''c''] [] (0, 0) = Inr ([3, 2], (20, 6))
   \<and> (0::nat) < length [''ab'', ''c'']
   \<and> (\<exists>wi times' wi'.
         runner demo_time (spacy_body demo_nlp) (take 0 [''ab'', ''c'']) [] (0, 0)
           = Inr (take 0 [3, 2], wi)
         \<and> trials demo_time (spacy_body demo_nlp) ([''ab'', ''c''] ! 0) 3 [] wi = Inr (times', wi')
         \<and> length times' = 3
         \<and> [3, 2] ! 0 = Min (set times')
         \<and> (\<forall>t\<in>set times'. [3, 2] ! 0 \<le> t))"
  using runner_records_minimum [OF demo_spacy_run, of 0] demo_spacy_run by simp

text \<open>
  Claim C7. On an empty corpus both runners return the empty result list and leave the
  world as it was, whatever the external functions are: also when they would raise on
  every call or count their calls in the world. So none of them is invoked.
\<close>

theorem runner_empty_corpus:
  "spacy time nlp [] w = Inr ([], w)
   \<and> nltk time sent_tokenize word_tokenize pos_tag ne_chunk [] w = Inr ([], w)"
  by (simp add: spacy_def nltk_def)

text \<open>
  Claim C9. The runner produces one result per sample, in corpus order: the result list
  is as long as the corpus, its first \<open>i\<close> entries are the results of the first \<open>i\<close>
  samples, and entry \<open>i\<close> is one of the three trial durations measured for sample
  \<open>i\<close>.
\<close>

theorem runner_one_result_per_sample:
  assumes "runner time pipeline text_data [] w = Inr (results, w')"
  shows "length results = length text_data
         \<and> (\<forall>i<length text_data. \<exists>wi times' wi'.
               runner time pipeline (take i text_data) [] w = Inr (take i results, wi)
               \<and> trials time pipeline (text_data ! i) 3 [] wi = Inr (times', wi')
               \<and> length times' = 3
               \<and> results ! i \<in> set times')"
proof (intro conjI allI impI)
  show "length results = length text_data" using assms by (rule runner_length)
next
  fix i assume "i < length text_data"
  from runner_nth [OF assms this] obtain wi ts wi' where
    a: "runner time pipeline (take i text_data) [] w = Inr (take i results, wi)"
    and b: "trials time pipeline (text_data ! i) 3 [] wi = Inr (ts, wi')"
    and c: "length ts = 3" and d: "py_min ts = Inr (results ! i)"
    by blast
  from d have "results ! i \<in> set ts" by (rule py_min_mem)
  with a b c show "\<exists>wi times' wi'.
               runner time pipeline (take i text_data) [] w = Inr (take i results, wi)
               \<and> trials time pipeline (text_data ! i) 3 [] wi = Inr (times', wi')
               \<and> length times' = 3
               \<and> results ! i \<in> set times'" by blast
qed

lemma demo_nltk_run:
  "runner demo_time (nltk_body demo_sent_tokenize demo_word_tokenize demo_pos_tag demo_ne_chunk)
     [''ab'', ''c''] [] (0, 0) = Inr ([5, 4], (31, 6))"
  by (simp add: demo_time_def nltk_body_def demo_sent_tokenize_def demo_word_tokenize_def
      demo_pos_tag_def demo_ne_chunk_def py_min_def numeral_3_eq_3)

theorem runner_one_result_per_sample_witness:
  "runner demo_time (nltk_body demo_sent_tokenize demo_word_tokenize demo_pos_tag demo_ne_chunk)
     [''ab'', ''c''] [] (0, 0) = Inr ([5, 4], (31, 6))
   \<and> length [5, 4 :: real] = length [''ab'', ''c'']
   \<and> (\<exists>wi times' wi'.
         runner demo_time
           (nltk_body demo_sent_tokenize demo_word_tokenize demo_pos_tag demo_ne_chunk)
           (take 1 [''ab'', ''c'']) [] (0, 0) = Inr (take 1 [5, 4], wi)
         \<and> trials demo_time
             (nltk_body demo_sent_tokenize demo_word_tokenize demo_pos_tag demo_ne_chunk)
             ([''ab'', ''c''] ! 1) 3 [] wi = Inr (times', wi')
         \<and> length times' = 3
         \<and> [5, 4] ! 1 \<in> set times')"
proof -
  have "(1::nat) < length [''ab'', ''c'']" by simp
  with runner_one_result_per_sample [OF demo_nltk_run] demo_nltk_run show ?thesis
    by blast
qed

lemma trials_positive:
  assumes adv: "\<And>tx w t1 w1 w2 t2 w3.
      time w = (t1, w1) \<Longrightarrow> pipeline tx w1 = Inr w2 \<Longrightarrow> time w2 = (t2, w3) \<Longrightarrow> t1 < t2"
  shows "trials time pipeline tx k acc w = Inr (ts, w') \<Longrightarrow> \<forall>t\<in>set acc. 0 < t
     \<Longrightarrow> \<forall>t\<in>set ts. 0 < t"
proof (induction k arbitrary: acc w)
  case 0
  then show ?case by simp
next
  case (Suc k)
  obtain t1 w1 where t1: "time w = (t1, w1)" by (cases "time w")
  with Suc.prems(1) obtain w2 where w2: "pipeline tx w1 = Inr w2"
    by (auto split: sum.splits)
  obtain t2 w3 where t2: "time w2 = (t2, w3)" by (cases "time w2")
  from Suc.prems(1) t1 w2 t2
  have rest: "trials time pipeline tx k (acc @ [t2 - t1]) w3 = Inr (ts, w')" by simp
  from adv [OF t1 w2 t2] Suc.prems(2) have "\<forall>t\<in>set (acc @ [t2 - t1]). 0 < t" by simp
  with Suc.IH [OF rest] show ?case by blast
qed

lemma runner_positive:
  assumes adv: "\<And>tx w t1 w1 w2 t2 w3.
      time w = (t1, w1) \<Longrightarrow> pipeline tx w1 = Inr w2 \<Longrightarrow> time w2 = (t2, w3) \<Longrightarrow> t1 < t2"
  shows "runner time pipeline text_data acc w = Inr (rs, w') \<Longrightarrow> \<forall>t\<in>set acc. 0 < t
     \<Longrightarrow> \<forall>t\<in>set rs. 0 < t"
proof (induction text_data arbitrary: acc w)
  case Nil
  then show ?case by simp
next
  case (Cons tx text_data)
  from Cons.prems(1) obtain ts w1 t where
    tr: "trials time pipeline tx 3 [] w = Inr (ts, w1)" and mn: "py_min ts = Inr t"
    and rest: "runner time pipeline text_data (acc @ [t]) w1 = Inr (rs, w')"
    by (auto split: sum.splits prod.splits)
  from trials_positive [OF adv tr] have "\<forall>t\<in>set ts. 0 < t" by simp
  moreover from mn have "t \<in> set ts" by (rule py_min_mem)
  ultimately have "0 < t" by blast
  with Cons.prems(2) have "\<forall>u\<in>set (acc @ [t]). 0 < u" by simp
  with Cons.IH [OF rest] show ?case by blast
qed

text \<open>
  Claim C8 says that every recorded duration is strictly positive. The notebook does
  not enforce it: with a clock whose two readings around the pipeline call agree, the
  recorded duration is \<open>0\<close>.
\<close>

theorem runner_elapsed_positive_counterexample:
  "spacy frozen_time demo_nlp [''ab''] (0, 0) = Inr ([0], (14, 3))"
  by (simp add: spacy_def frozen_time_def demo_nlp_def spacy_body_def py_min_def numeral_3_eq_3)

text \<open>
  Claim C8, amended. If the clock reading strictly increases across every pipeline
  invocation that returns (\<open>t1 < t2\<close> in every trial), then every recorded duration is
  strictly positive.
\<close>

theorem runner_elapsed_positive_if_clock_advances:
  assumes "\<And>tx w t1 w1 w2 t2 w3.
      time w = (t1, w1) \<Longrightarrow> pipeline tx w1 = Inr w2 \<Longrightarrow> time w2 = (t2, w3) \<Longrightarrow> t1 < t2"
    and "runner time pipeline text_data [] w = Inr (results, w')"
  shows "\<forall>t\<in>set results. 0 < t"
  using runner_positive [of time pipeline text_data "[]" w results w'] assms by simp

lemma demo_nltk_advances:
  assumes "demo_time w = (t1, w1)"
    and "nltk_body demo_sent_tokenize demo_word_tokenize demo_pos_tag demo_ne_chunk tx w1 = Inr w2"
    and "demo_time w2 = (t2, w3)"
  shows "t1 < t2"
  using assms
  by (auto simp add: demo_time_def nltk_body_def demo_sent_tokenize_def demo_word_tokenize_def
      demo_pos_tag_def demo_ne_chunk_def split: if_splits)

theorem runner_elapsed_positive_if_clock_advances_witness:
  "runner demo_time (nltk_body demo_sent_tokenize demo_word_tokenize demo_pos_tag demo_ne_chunk)
     [''ab'', ''c''] [] (0, 0) = Inr ([5, 4], (31, 6))
   \<and> (0::real) < 5 \<and> (0::real) < 4"
  using runner_elapsed_positive_if_clock_advances [OF demo_nltk_advances demo_nltk_run]
    demo_nltk_run
  by simp

section \<open>Properties of the Log-Log Regression Fitter\<close>

lemma log10_all_pos:
  "\<forall>v\<in>set vs. 0 < v \<Longrightarrow> log10_all vs = Inr (map (log 10) vs)"
  by (induction vs) (simp_all add: log10_def)

lemma log10_all_nonpos:
  "\<exists>v\<in>set vs. v \<le> 0 \<Longrightarrow> log10_all vs = Inl ValueError"
proof (induction vs)
  case Nil
  then show ?case by simp
next
  case (Cons v vs)
  show ?case
  proof (cases "v \<le> 0")
    case True
    then show ?thesis by (simp add: log10_def)
  next
    case False
    with Cons.prems have "\<exists>u\<in>set vs. u \<le> 0" by auto
    with Cons.IH False show ?thesis by (simp add: log10_def)
  qed
qed

lemma linregress_degenerate:
  "length (remdups x) < 2 \<Longrightarrow> linregress x y = Inl ValueError"
  by (simp add: linregress_def)

lemma fitter_pos:
  assumes "\<forall>n\<in>set n_chars. 0 < n" and "\<forall>t\<in>set durations. 0 < t"
  shows "fitter n_chars durations =
    (case linregress (map (log 10) (map real_of_int n_chars)) (map (log 10) durations) of
       Inl e \<Rightarrow> Inl e | Inr (m, b, r) \<Rightarrow> Inr (m, b, r\<^sup>2))"
proof -
  from assms(1) have "\<forall>v\<in>set (map real_of_int n_chars). 0 < v" by simp
  then have "log10_all (map real_of_int n_chars) = Inr (map (log 10) (map real_of_int n_chars))"
    by (rule log10_all_pos)
  moreover from assms(2) have "log10_all durations = Inr (map (log 10) durations)"
    by (rule log10_all_pos)
  ultimately show ?thesis by (simp add: fitter_def)
qed

text \<open>
  Claim C2. If some size or some duration is non-positive, or fewer than two distinct
  sizes are supplied, the fitter fails with \<open>ValueError\<close>, the specification's
  \<open>DomainError\<close>. The first two cases are raised by \<open>math.log10\<close> in cell 6, the
  third by the regression as the specification describes it.
\<close>

theorem fitter_rejects_invalid_input:
  assumes "(\<exists>n\<in>set n_chars. n \<le> 0) \<or> (\<exists>t\<in>set durations. t \<le> 0) \<or> card (set n_chars) < 2"
  shows "fitter n_chars durations = Inl ValueError"
proof (cases "\<exists>n\<in>set n_chars. n \<le> 0")
  case True
  then have "\<exists>v\<in>set (map real_of_int n_chars). v \<le> 0" by simp
  then have "log10_all (map real_of_int n_chars) = Inl ValueError" by (rule log10_all_nonpos)
  then show ?thesis by (simp add: fitter_def)
next
  case False
  then have "\<forall>v\<in>set (map real_of_int n_chars). 0 < v" by auto
  then have lc: "log10_all (map real_of_int n_chars) = Inr (map (log 10) (map real_of_int n_chars))"
    by (rule log10_all_pos)
  show ?thesis
  proof (cases "\<exists>t\<in>set durations. t \<le> 0")
    case True
    then have "log10_all durations = Inl ValueError" by (rule log10_all_nonpos)
    with lc show ?thesis by (simp add: fitter_def)
  next
    case nonneg: False
    then have "\<forall>t\<in>set durations. 0 < t" by auto
    then have ld: "log10_all durations = Inr (map (log 10) durations)" by (rule log10_all_pos)
    from assms False nonneg have few: "card (set n_chars) < 2" by blast
    have "length (remdups (map (log 10) (map real_of_int n_chars)))
        = card ((\<lambda>n. log 10 (real_of_int n)) ` set n_chars)"
      by (simp add: length_remdups_card_conv image_image)
    also have "\<dots> \<le> card (set n_chars)" by (rule card_image_le) simp
    finally have "length (remdups (map (log 10) (map real_of_int n_chars))) < 2"
      using few by simp
    then have "linregress (map (log 10) (map real_of_int n_chars)) (map (log 10) durations)
        = Inl ValueError" by (rule linregress_degenerate)
    with lc ld show ?thesis by (simp add: fitter_def)
  qed
qed

theorem fitter_rejects_invalid_input_witness:
  "fitter [0, 5] [1, 2] = Inl ValueError
   \<and> fitter [3, 5] [1, - 2] = Inl ValueError
   \<and> fitter [5, 5] [1, 2] = Inl ValueError"
  using fitter_rejects_invalid_input [of "[0, 5]" "[1, 2]"]
    fitter_rejects_invalid_input [of "[3, 5]" "[1, - 2]"]
    fitter_rejects_invalid_input [of "[5, 5]" "[1, 2]"]
  by simp

lemma sum_list_quadratic:
  fixes f g :: "real \<Rightarrow> real"
  shows "length x = length y \<Longrightarrow>
    (\<Sum>(a, b)\<leftarrow>zip x y. (t * f a + g b)\<^sup>2)
      = t\<^sup>2 * (\<Sum>a\<leftarrow>x. (f a)\<^sup>2) + 2 * t * (\<Sum>(a, b)\<leftarrow>zip x y. f a * g b) + (\<Sum>b\<leftarrow>y. (g b)\<^sup>2)"
  by (induction x y rule: list_induct2) (simp_all add: algebra_simps power2_eq_square)

lemma sum_list_products_bound:
  fixes f g :: "real \<Rightarrow> real"
  assumes len: "length x = length y"
  shows "(\<Sum>(a, b)\<leftarrow>zip x y. f a * g b)\<^sup>2 \<le> (\<Sum>a\<leftarrow>x. (f a)\<^sup>2) * (\<Sum>b\<leftarrow>y. (g b)\<^sup>2)"
proof -
  define A where "A = (\<Sum>a\<leftarrow>x. (f a)\<^sup>2)"
  define B where "B = (\<Sum>(a, b)\<leftarrow>zip x y. f a * g b)"
  define C where "C = (\<Sum>b\<leftarrow>y. (g b)\<^sup>2)"
  have quad: "0 \<le> t\<^sup>2 * A + 2 * t * B + C" for t
  proof -
    have "0 \<le> (\<Sum>(a, b)\<leftarrow>zip x y. (t * f a + g b)\<^sup>2)"
      by (rule sum_list_nonneg) auto
    then show ?thesis
      by (simp add: sum_list_quadratic [OF len] A_def B_def C_def)
  qed
  have A0: "0 \<le> A" unfolding A_def by (rule sum_list_nonneg) auto
  show ?thesis
  proof (cases "A = 0")
    case True
    have "B = 0"
    proof (rule ccontr)
      assume nz: "B \<noteq> 0"
      from quad [of "- (C + 1) / (2 * B)"] True nz show False by (simp add: field_simps)
    qed
    with True show ?thesis by (simp add: A_def B_def C_def)
  next
    case False
    with A0 have pos: "0 < A" by simp
    from quad [of "- B / A"] have "0 \<le> (B / A)\<^sup>2 * A - 2 * (B / A) * B + C" by simp
    also from pos have "(B / A)\<^sup>2 * A - 2 * (B / A) * B + C = C - B\<^sup>2 / A"
      by (simp add: field_simps power2_eq_square)
    finally have "B\<^sup>2 / A \<le> C" by simp
    with pos have "B\<^sup>2 \<le> A * C" by (simp add: field_simps)
    then show ?thesis by (simp add: A_def B_def C_def)
  qed
qed

lemma mean_products_bound:
  assumes len: "length x = length y"
  shows "(mean (map (\<lambda>(a, b). (a - xm) * (b - ym)) (zip x y)))\<^sup>2
    \<le> mean (map (\<lambda>a. (a - xm)\<^sup>2) x) * mean (map (\<lambda>b. (b - ym)\<^sup>2) y)"
proof -
  have "(\<Sum>(a, b)\<leftarrow>zip x y. (a - xm) * (b - ym))\<^sup>2
      \<le> (\<Sum>a\<leftarrow>x. (a - xm)\<^sup>2) * (\<Sum>b\<leftarrow>y. (b - ym)\<^sup>2)"
    using sum_list_products_bound [OF len, of "\<lambda>a. a - xm" "\<lambda>b. b - ym"] .
  then have "(\<Sum>(a, b)\<leftarrow>zip x y. (a - xm) * (b - ym))\<^sup>2 / (real (length x))\<^sup>2
      \<le> (\<Sum>a\<leftarrow>x. (a - xm)\<^sup>2) * (\<Sum>b\<leftarrow>y. (b - ym)\<^sup>2) / (real (length x))\<^sup>2"
    by (rule divide_right_mono) simp
  then show ?thesis using len
    by (simp add: mean_def power_divide power2_eq_square)
qed

lemma mean_squares_nonneg: "0 \<le> mean (map (\<lambda>a. (a - c)\<^sup>2) x)"
  unfolding mean_def by (intro divide_nonneg_nonneg sum_list_nonneg) auto

lemma linregress_returns:
  assumes "length x = length y" and "2 \<le> length (remdups x)"
  shows "\<exists>m b r. linregress x y = Inr (m, b, r)"
  using assms by (simp add: linregress_def Let_def)

lemma linregress_r_squared:
  assumes "linregress x y = Inr (m, b, r)"
  shows "r\<^sup>2 \<le> 1"
proof -
  from assms have len: "length x = length y"
    by (simp add: linregress_def split: if_splits)
  define p where "p = mean (map (\<lambda>a. (a - mean x)\<^sup>2) x) * mean (map (\<lambda>b. (b - mean y)\<^sup>2) y)"
  define q where "q = mean (map (\<lambda>(a, b). (a - mean x) * (b - mean y)) (zip x y))"
  from assms have r: "r = (if p = 0 then 0 else q / sqrt p)"
    by (auto simp add: linregress_def Let_def p_def q_def split: if_splits)
  have p0: "0 \<le> p" unfolding p_def by (intro mult_nonneg_nonneg mean_squares_nonneg)
  have qp: "q\<^sup>2 \<le> p" unfolding p_def q_def by (rule mean_products_bound [OF len])
  show ?thesis
  proof (cases "p = 0")
    case True
    with r show ?thesis by simp
  next
    case False
    with p0 have "0 < p" by simp
    with r False have "r\<^sup>2 = q\<^sup>2 / p" by (simp add: power_divide)
    with qp \<open>0 < p\<close> show ?thesis by simp
  qed
qed

lemma log_chars_distinct:
  assumes "\<forall>n\<in>set n_chars. 0 < n"
  shows "length (remdups (map (log 10) (map real_of_int n_chars))) = card (set n_chars)"
proof -
  have "inj_on (\<lambda>n. log 10 (real_of_int n)) (set n_chars)"
  proof (rule inj_onI)
    fix a b assume a: "a \<in> set n_chars" and b: "b \<in> set n_chars"
      and eq: "log 10 (real_of_int a) = log 10 (real_of_int b)"
    from a b assms have "0 < real_of_int a" "0 < real_of_int b" by auto
    then have "real_of_int a \<in> {0<..}" "real_of_int b \<in> {0<..}" by simp_all
    with eq have "real_of_int a = real_of_int b"
      using inj_onD [OF log_inj [of 10]] by fastforce
    then show "a = b" by simp
  qed
  then have "card ((\<lambda>n. log 10 (real_of_int n)) ` set n_chars) = card (set n_chars)"
    by (rule card_image)
  then show ?thesis by (simp add: length_remdups_card_conv image_image)
qed

text \<open>
  Claim C3. On parallel sequences of positive sizes and positive durations with at
  least two distinct sizes the fitter returns a triple, and its third component
  \<open>r_squared\<close> lies between \<open>0\<close> and \<open>1\<close>.
\<close>

theorem fitter_r_squared_in_unit_interval:
  assumes "length n_chars = length durations"
    and "\<forall>n\<in>set n_chars. 0 < n"
    and "\<forall>t\<in>set durations. 0 < t"
    and "2 \<le> card (set n_chars)"
  shows "\<exists>m b r_squared. fitter n_chars durations = Inr (m, b, r_squared)
           \<and> 0 \<le> r_squared \<and> r_squared \<le> 1"
proof -
  let ?x = "map (log 10) (map real_of_int n_chars)"
  let ?y = "map (log 10) durations"
  have "length ?x = length ?y" using assms(1) by simp
  moreover have "2 \<le> length (remdups ?x)"
    using assms(4) log_chars_distinct [OF assms(2)] by simp
  ultimately obtain m b r where lr: "linregress ?x ?y = Inr (m, b, r)"
    using linregress_returns by blast
  then have "fitter n_chars durations = Inr (m, b, r\<^sup>2)"
    by (simp add: fitter_pos [OF assms(2) assms(3)])
  moreover from lr have "r\<^sup>2 \<le> 1" by (rule linregress_r_squared)
  ultimately show ?thesis by auto
qed

theorem fitter_r_squared_in_unit_interval_witness:
  "length [10, 100, 1000 :: int] = length [1, 3, 2 :: real]
   \<and> (\<exists>m b r_squared. fitter [10, 100, 1000] [1, 3, 2] = Inr (m, b, r_squared)
         \<and> 0 \<le> r_squared \<and> r_squared \<le> 1)"
  using fitter_r_squared_in_unit_interval [of "[10, 100, 1000]" "[1, 3, 2]"] by simp

lemma sum_list_shift:
  fixes y :: "real list"
  shows "sum_list (map (\<lambda>v. v + c) y) = sum_list y + real (length y) * c"
  by (induction y) (simp_all add: algebra_simps)

lemma mean_shift:
  assumes "y \<noteq> []"
  shows "mean (map (\<lambda>v. v + c) y) = mean y + c"
  using assms by (simp add: mean_def sum_list_shift field_simps)

lemma linregress_shift:
  assumes "linregress x y = Inr (m, b, r)"
  shows "linregress x (map (\<lambda>v. v + c) y) = Inr (m, b + c, r)"
proof -
  from assms have len: "length x = length y" and two: "2 \<le> length (remdups x)"
    by (simp_all add: linregress_def split: if_splits)
  from two have "x \<noteq> []" by auto
  with len have ne: "y \<noteq> []" by auto
  have ym: "mean (map (\<lambda>v. v + c) y) = mean y + c" using ne by (rule mean_shift)
  have ssym: "map (\<lambda>b. (b - (mean y + c))\<^sup>2) (map (\<lambda>v. v + c) y) = map (\<lambda>b. (b - mean y)\<^sup>2) y"
    by simp
  have ssxym: "map (\<lambda>(a, b). (a - mean x) * (b - (mean y + c))) (zip x (map (\<lambda>v. v + c) y))
      = map (\<lambda>(a, b). (a - mean x) * (b - mean y)) (zip x y)"
    by (simp add: zip_map2 split_def)
  from assms show ?thesis
    unfolding linregress_def Let_def ym ssym ssxym
    by (auto split: if_splits simp add: algebra_simps)
qed

text \<open>
  Claim C4. On valid input, multiplying every duration by a constant \<open>k > 0\<close> leaves
  the slope and \<open>r_squared\<close> as they are and adds \<open>log10(k)\<close> to the intercept.
\<close>

theorem fitter_scale_invariance:
  assumes "length n_chars = length durations"
    and "\<forall>n\<in>set n_chars. 0 < n"
    and "\<forall>t\<in>set durations. 0 < t"
    and "2 \<le> card (set n_chars)"
    and "0 < k"
  shows "\<exists>m b r_squared. fitter n_chars durations = Inr (m, b, r_squared)
           \<and> fitter n_chars (map (\<lambda>t. k * t) durations) = Inr (m, b + log 10 k, r_squared)"
proof -
  let ?x = "map (log 10) (map real_of_int n_chars)"
  let ?y = "map (log 10) durations"
  have "length ?x = length ?y" using assms(1) by simp
  moreover have "2 \<le> length (remdups ?x)"
    using assms(4) log_chars_distinct [OF assms(2)] by simp
  ultimately obtain m b r where lr: "linregress ?x ?y = Inr (m, b, r)"
    using linregress_returns by blast
  then have one: "fitter n_chars durations = Inr (m, b, r\<^sup>2)"
    by (simp add: fitter_pos [OF assms(2) assms(3)])
  have scaled: "\<forall>t\<in>set (map (\<lambda>t. k * t) durations). 0 < t"
    using assms(3) assms(5) by simp
  have eq: "map (log 10) (map (\<lambda>t. k * t) durations) = map (\<lambda>v. v + log 10 k) ?y"
    using assms(3) assms(5) by (simp add: log_mult_pos)
  have sh: "linregress ?x (map (\<lambda>v. v + log 10 k) ?y) = Inr (m, b + log 10 k, r)"
    using lr by (rule linregress_shift)
  have "fitter n_chars (map (\<lambda>t. k * t) durations)
      = (case linregress ?x (map (log 10) (map (\<lambda>t. k * t) durations)) of
           Inl e \<Rightarrow> Inl e | Inr (m, b, r) \<Rightarrow> Inr (m, b, r\<^sup>2))"
    by (rule fitter_pos [OF assms(2) scaled])
  then have "fitter n_chars (map (\<lambda>t. k * t) durations) = Inr (m, b + log 10 k, r\<^sup>2)"
    unfolding eq sh by simp
  with one show ?thesis by blast
qed

theorem fitter_scale_invariance_witness:
  "length [10, 100, 1000 :: int] = length [1, 3, 2 :: real] \<and> (0::real) < 1000
   \<and> (\<exists>m b r_squared. fitter [10, 100, 1000] [1, 3, 2] = Inr (m, b, r_squared)
         \<and> fitter [10, 100, 1000] [1000, 3000, 2000] = Inr (m, b + 3, r_squared))"
proof -
  have "log 10 (1000::real) = 3"
    using log_nat_power [of 10 10 3] by simp
  then show ?thesis
    using fitter_scale_invariance [of "[10, 100, 1000]" "[1, 3, 2]" 1000] by simp
qed

lemma mean_squares_pos:
  assumes "2 \<le> length (remdups x)"
  shows "0 < mean (map (\<lambda>a. (a - c)\<^sup>2) x)"
proof -
  have "sum_list (map (\<lambda>a. (a - c)\<^sup>2) x) \<noteq> 0"
  proof
    assume "sum_list (map (\<lambda>a. (a - c)\<^sup>2) x) = 0"
    then have "\<forall>v\<in>set (map (\<lambda>a. (a - c)\<^sup>2) x). v = 0"
      by (subst (asm) sum_list_nonneg_eq_0_iff) auto
    then have "set x \<subseteq> {c}" by auto
    then have "card (set x) \<le> card {c}" by (intro card_mono) simp_all
    with assms show False by (simp add: length_remdups_card_conv)
  qed
  moreover have "0 \<le> sum_list (map (\<lambda>a. (a - c)\<^sup>2) x)" by (rule sum_list_nonneg) auto
  ultimately have "0 < sum_list (map (\<lambda>a. (a - c)\<^sup>2) x)" by simp
  moreover from assms have "x \<noteq> []" by auto
  ultimately show ?thesis by (simp add: mean_def)
qed

lemma linregress_identity:
  assumes "2 \<le> length (remdups x)"
  shows "linregress x x = Inr (1, 0, 1)"
proof -
  define s where "s = mean (map (\<lambda>a. (a - mean x)\<^sup>2) x)"
  have pos: "0 < s" unfolding s_def using assms by (rule mean_squares_pos)
  have "map (\<lambda>(a, b). (a - mean x) * (b - mean x)) (zip x x) = map (\<lambda>a. (a - mean x)\<^sup>2) x"
    by (simp add: zip_same_conv_map power2_eq_square)
  then have xy: "mean (map (\<lambda>(a, b). (a - mean x) * (b - mean x)) (zip x x)) = s"
    by (simp add: s_def)
  from pos have "s / sqrt (s * s) = 1" by simp
  with pos assms show ?thesis
    unfolding linregress_def Let_def xy s_def [symmetric] by simp
qed

text \<open>
  Claim C6. On the sizes \<open>[50, 150, 450]\<close> with the durations \<open>[0.01, 0.03, 0.09]\<close>
  the fitter returns slope \<open>1\<close> and \<open>r_squared\<close> \<open>1\<close> (over the reals exactly; the
  intercept is \<open>log10(1/5000)\<close>).
\<close>

theorem fitter_exactly_linear_scenario:
  "fitter [50, 150, 450] [0.01, 0.03, 0.09] = Inr (1, log 10 (1 / 5000), 1)"
proof -
  let ?x = "map (log 10) (map real_of_int [50, 150, 450])"
  have "length (remdups ?x) = card (set [50, 150, 450 :: int])"
    by (rule log_chars_distinct) simp
  then have two: "2 \<le> length (remdups ?x)" by simp
  have "linregress ?x (map (\<lambda>v. v + log 10 (1 / 5000)) ?x) = Inr (1, 0 + log 10 (1 / 5000), 1)"
    using linregress_identity [OF two] by (rule linregress_shift)
  moreover have "map (log 10) [0.01, 0.03, 0.09] = map (\<lambda>v. v + log 10 (1 / 5000)) ?x"
    using log_mult_pos [of 50 "1 / 5000" 10] log_mult_pos [of 150 "1 / 5000" 10]
      log_mult_pos [of 450 "1 / 5000" 10]
    by simp
  ultimately have "linregress ?x (map (log 10) [0.01, 0.03, 0.09]) = Inr (1, log 10 (1 / 5000), 1)"
    by simp
  moreover have "fitter [50, 150, 450] [0.01, 0.03, 0.09]
      = (case linregress ?x (map (log 10) [0.01, 0.03, 0.09]) of
           Inl e \<Rightarrow> Inl e | Inr (m, b, r) \<Rightarrow> Inr (m, b, r\<^sup>2))"
    by (rule fitter_pos) simp_all
  ultimately show ?thesis by simp
qed

subsection \<open>The modelled regression is the least-squares line\<close>

text \<open>
  The line that \<open>linregress\<close> returns satisfies the normal equations, and no other
  line has a smaller sum of squared residuals: the closed form of the model is the
  ordinary least-squares fit that the specification names.
\<close>

lemma sum_list_residual_expansion:
  fixes E U :: "'a \<Rightarrow> real"
  shows "(\<Sum>p\<leftarrow>ps. (E p + \<alpha> * U p + d)\<^sup>2)
    = (\<Sum>p\<leftarrow>ps. (E p)\<^sup>2) + 2 * \<alpha> * (\<Sum>p\<leftarrow>ps. E p * U p) + 2 * d * (\<Sum>p\<leftarrow>ps. E p)
      + (\<Sum>p\<leftarrow>ps. (\<alpha> * U p + d)\<^sup>2)"
  by (induction ps) (simp_all add: algebra_simps power2_eq_square)

lemma sum_list_diff_scaled:
  fixes F G :: "'a \<Rightarrow> real"
  shows "(\<Sum>p\<leftarrow>ps. F p - c * G p) = (\<Sum>p\<leftarrow>ps. F p) - c * (\<Sum>p\<leftarrow>ps. G p)"
  by (induction ps) (simp_all add: algebra_simps)

lemma sum_list_zip_fst:
  fixes f :: "'a \<Rightarrow> real"
  shows "length x = length y \<Longrightarrow> (\<Sum>(a, v)\<leftarrow>zip x y. f a) = (\<Sum>a\<leftarrow>x. f a)"
  by (induction x y rule: list_induct2) simp_all

lemma sum_list_zip_snd:
  fixes g :: "'b \<Rightarrow> real"
  shows "length x = length y \<Longrightarrow> (\<Sum>(a, v)\<leftarrow>zip x y. g v) = (\<Sum>v\<leftarrow>y. g v)"
  by (induction x y rule: list_induct2) simp_all

lemma sum_list_deviation:
  fixes x :: "real list"
  assumes "x \<noteq> []"
  shows "(\<Sum>a\<leftarrow>x. a - mean x) = 0"
proof -
  have "(\<Sum>a\<leftarrow>x. a - c) = sum_list x - real (length x) * c" for c
    by (induction x) (simp_all add: algebra_simps)
  with assms show ?thesis by (simp add: mean_def)
qed

lemma linregress_normal_equations:
  assumes "linregress x y = Inr (m, b, r)"
  shows "(\<Sum>(a, v)\<leftarrow>zip x y. v - (m * a + b)) = 0
    \<and> (\<Sum>(a, v)\<leftarrow>zip x y. (v - (m * a + b)) * (a - mean x)) = 0"
proof -
  from assms have len: "length x = length y" and two: "2 \<le> length (remdups x)"
    by (simp_all add: linregress_def split: if_splits)
  from two have nx: "x \<noteq> []" by auto
  with len have ny: "y \<noteq> []" by auto
  define sxx where "sxx = (\<Sum>a\<leftarrow>x. (a - mean x)\<^sup>2)"
  define sxy where "sxy = (\<Sum>(a, v)\<leftarrow>zip x y. (a - mean x) * (v - mean y))"
  have "0 < mean (map (\<lambda>a. (a - mean x)\<^sup>2) x)" using two by (rule mean_squares_pos)
  with nx have sxx: "sxx \<noteq> 0" by (auto simp add: mean_def sxx_def)
  from assms nx have m: "m = sxy / sxx" and b: "b = mean y - m * mean x"
    using len by (auto simp add: linregress_def Let_def mean_def sxx_def sxy_def split: if_splits)
  have res: "(\<lambda>(a, v). v - (m * a + b)) = (\<lambda>(a, v). (v - mean y) - m * (a - mean x))"
    by (simp add: b algebra_simps fun_eq_iff)
  have dx: "(\<Sum>(a, v)\<leftarrow>zip x y. a - mean x) = 0"
    using sum_list_zip_fst [OF len, of "\<lambda>a. a - mean x"] sum_list_deviation [OF nx] by simp
  have dy: "(\<Sum>(a, v)\<leftarrow>zip x y. v - mean y) = 0"
    using sum_list_zip_snd [OF len, of "\<lambda>v. v - mean y"] sum_list_deviation [OF ny] by simp
  have one: "(\<Sum>(a, v)\<leftarrow>zip x y. v - (m * a + b)) = 0"
    unfolding res
    using sum_list_diff_scaled [of "\<lambda>(a, v). v - mean y" m "\<lambda>(a, v). a - mean x" "zip x y"] dx dy
    by (simp add: split_def)
  have sxx': "(\<Sum>(a, v)\<leftarrow>zip x y. (a - mean x) * (a - mean x)) = sxx"
    using sum_list_zip_fst [OF len, of "\<lambda>a. (a - mean x) * (a - mean x)"]
    by (simp add: sxx_def power2_eq_square)
  have "(\<lambda>(a, v). (v - (m * a + b)) * (a - mean x))
      = (\<lambda>(a, v). (a - mean x) * (v - mean y) - m * ((a - mean x) * (a - mean x)))"
    by (simp add: b algebra_simps fun_eq_iff)
  then have "(\<Sum>(a, v)\<leftarrow>zip x y. (v - (m * a + b)) * (a - mean x))
      = (\<Sum>(a, v)\<leftarrow>zip x y. (a - mean x) * (v - mean y) - m * ((a - mean x) * (a - mean x)))"
    by simp
  also have "\<dots> = sxy - m * sxx"
    using sum_list_diff_scaled [of "\<lambda>(a, v). (a - mean x) * (v - mean y)" m
        "\<lambda>(a, v). (a - mean x) * (a - mean x)" "zip x y"] sxx'
    by (simp add: split_def sxy_def)
  also have "\<dots> = 0" using sxx by (simp add: m)
  finally show ?thesis using one by simp
qed

lemma linregress_least_squares:
  assumes "linregress x y = Inr (m, b, r)"
  shows "(\<Sum>(a, v)\<leftarrow>zip x y. (v - (m * a + b))\<^sup>2) \<le> (\<Sum>(a, v)\<leftarrow>zip x y. (v - (m' * a + b'))\<^sup>2)"
proof -
  define E where "E = (\<lambda>(a::real, v). v - (m * a + b))"
  define U where "U = (\<lambda>(a::real, v::real). a - mean x)"
  define d where "d = (m - m') * mean x + (b - b')"
  from linregress_normal_equations [OF assms]
  have ne: "(\<Sum>p\<leftarrow>zip x y. E p) = 0" "(\<Sum>p\<leftarrow>zip x y. E p * U p) = 0"
    by (simp_all add: E_def U_def split_def)
  have "(\<lambda>(a, v). (v - (m' * a + b'))\<^sup>2) = (\<lambda>p. (E p + (m - m') * U p + d)\<^sup>2)"
    by (simp add: E_def U_def d_def fun_eq_iff algebra_simps)
  then have "(\<Sum>(a, v)\<leftarrow>zip x y. (v - (m' * a + b'))\<^sup>2)
      = (\<Sum>p\<leftarrow>zip x y. (E p + (m - m') * U p + d)\<^sup>2)" by simp
  also have "\<dots> = (\<Sum>p\<leftarrow>zip x y. (E p)\<^sup>2) + (\<Sum>p\<leftarrow>zip x y. ((m - m') * U p + d)\<^sup>2)"
    by (simp add: sum_list_residual_expansion ne)
  finally have "(\<Sum>(a, v)\<leftarrow>zip x y. (v - (m' * a + b'))\<^sup>2)
      = (\<Sum>p\<leftarrow>zip x y. (E p)\<^sup>2) + (\<Sum>p\<leftarrow>zip x y. ((m - m') * U p + d)\<^sup>2)" .
  moreover have "0 \<le> (\<Sum>p\<leftarrow>zip x y. ((m - m') * U p + d)\<^sup>2)"
    by (rule sum_list_nonneg) auto
  ultimately show ?thesis by (simp add: E_def split_def)
qed

section \<open>Properties of the Extrapolation\<close>

lemma reg_pos:
  "0 < x \<Longrightarrow> reg m b x = Inr (10 powr b * 10 powr (m * log 10 x))"
  by (simp add: reg_def log10_def)

text \<open>
  Claim C5. For every slope \<open>m\<close>, intercept \<open>b\<close> and positive size \<open>x\<close>, the
  predicted duration is the power-law value \<open>10^b \<cdot> x^m\<close>.
\<close>

theorem reg_power_law:
  assumes "0 < x"
  shows "reg m b x = Inr (10 powr b * x powr m)"
proof -
  have "10 powr (m * log 10 x) = (10 powr log 10 x) powr m"
    by (simp add: powr_powr mult.commute)
  also from assms have "\<dots> = x powr m" by simp
  finally show ?thesis using assms by (simp add: reg_pos)
qed

theorem reg_power_law_witness:
  "(0::real) < 100 \<and> reg 2 1 100 = Inr (10 powr 1 * 100 powr 2)"
  using reg_power_law [of 100 2 1] by simp

lemma reg_Inl: "reg m b x = Inl e \<longleftrightarrow> x \<le> 0 \<and> e = ValueError"
  by (auto simp add: reg_def log10_def)

lemma reg_all_Inr:
  "(\<exists>ys. reg_all m b n_chars = Inr ys) \<longleftrightarrow> (\<forall>n\<in>set n_chars. 0 < n)"
proof (induction n_chars)
  case Nil
  then show ?case by simp
next
  case (Cons n n_chars)
  show ?case
  proof (cases "0 < n")
    case True
    then have "reg m b (real_of_int n) = Inr (10 powr b * 10 powr (m * log 10 (real_of_int n)))"
      by (simp add: reg_pos)
    with True Cons.IH show ?thesis by (auto split: sum.splits)
  next
    case False
    then have "reg m b (real_of_int n) = Inl ValueError" by (simp add: reg_Inl)
    with False show ?thesis by simp
  qed
qed

lemma reg_all_Inl: "reg_all m b n_chars = Inl e \<Longrightarrow> e = ValueError"
  by (induction n_chars arbitrary: e) (auto simp add: reg_Inl split: sum.splits)

text \<open>
  Claim C10. The extrapolation takes the logarithm of the size with no guard: it fails
  (with \<open>ValueError\<close>) exactly on sizes \<open>x \<le> 0\<close> and returns a value exactly on
  positive ones, so the comprehension over the sizes passed to the plot returns a list
  exactly when every size is positive.
\<close>

theorem extrapolation_fails_exactly_on_nonpositive_sizes:
  "(reg m b x = Inl ValueError \<longleftrightarrow> x \<le> 0)
   \<and> ((\<exists>y. reg m b x = Inr y) \<longleftrightarrow> 0 < x)
   \<and> (reg_all m b n_chars = Inl ValueError \<longleftrightarrow> (\<exists>n\<in>set n_chars. n \<le> 0))
   \<and> ((\<exists>ys. reg_all m b n_chars = Inr ys) \<longleftrightarrow> (\<forall>n\<in>set n_chars. 0 < n))"
proof (intro conjI)
  show "reg m b x = Inl ValueError \<longleftrightarrow> x \<le> 0" by (simp add: reg_Inl)
  show "(\<exists>y. reg m b x = Inr y) \<longleftrightarrow> 0 < x"
    by (auto simp add: reg_def log10_def)
  show "(\<exists>ys. reg_all m b n_chars = Inr ys) \<longleftrightarrow> (\<forall>n\<in>set n_chars. 0 < n)"
    by (rule reg_all_Inr)
  show "reg_all m b n_chars = Inl ValueError \<longleftrightarrow> (\<exists>n\<in>set n_chars. n \<le> 0)"
  proof -
    have "reg_all m b n_chars = Inl ValueError \<longleftrightarrow> \<not> (\<exists>ys. reg_all m b n_chars = Inr ys)"
      using reg_all_Inl [of m b n_chars] by (cases "reg_all m b n_chars") auto
    then show ?thesis by (simp add: reg_all_Inr not_less)
  qed
qed

theorem extrapolation_fails_exactly_on_nonpositive_sizes_witness:
  "reg 1 0 (- 2) = Inl ValueError \<and> reg_all 1 0 [3, 0] = Inl ValueError
   \<and> (\<exists>ys. reg_all 1 0 [3, 9] = Inr ys)"
  using extrapolation_fails_exactly_on_nonpositive_sizes [of 1 0 "- 2" "[3, 0]"]
    extrapolation_fails_exactly_on_nonpositive_sizes [of 1 0 1 "[3, 9]"]
  by simp

end
